theory Spec2Isabelle
  imports Main "HOL-Library.AList"
begin

section \<open>Python strings\<close>

text \<open>
  A Python \<open>str\<close> is modelled as a \<open>string\<close>, one \<open>char\<close> per code point; the model
  covers the code points U+0000 to U+00FF. \<open>is_space\<close> is \<open>str.isspace\<close> on one
  character of that range: the characters that \<open>str.strip\<close>, \<open>str.lstrip\<close> and the
  regular expression class \<open>\s\<close> of a \<open>str\<close> pattern treat as whitespace.
\<close>

definition is_space :: "char \<Rightarrow> bool" where
  "is_space c \<longleftrightarrow> c \<in> set [CHR 0x09, CHR 0x0A, CHR 0x0B, CHR 0x0C, CHR 0x0D,
     CHR 0x1C, CHR 0x1D, CHR 0x1E, CHR 0x1F, CHR 0x20, CHR 0x85, CHR 0xA0]"

text \<open>\<open>s.lstrip()\<close>, \<open>s.rstrip()\<close>, \<open>s.strip()\<close> and \<open>s.strip(':')\<close>.\<close>

definition lstrip :: "string \<Rightarrow> string" where
  "lstrip s = dropWhile is_space s"

definition rstrip :: "string \<Rightarrow> string" where
  "rstrip s = rev (dropWhile is_space (rev s))"

definition strip :: "string \<Rightarrow> string" where
  "strip s = rstrip (lstrip s)"

definition strip_chars :: "char \<Rightarrow> string \<Rightarrow> string" where
  "strip_chars d s = rev (dropWhile (\<lambda>c. c = d) (rev (dropWhile (\<lambda>c. c = d) s)))"

text \<open>\<open>s.split(d)\<close> for a one-character separator: never the empty list.\<close>

fun split_on :: "char \<Rightarrow> string \<Rightarrow> string list" where
  "split_on d [] = [[]]"
| "split_on d (c # cs) =
     (if c = d then [] # split_on d cs
      else (case split_on d cs of [] \<Rightarrow> [[c]] | x # xs \<Rightarrow> (c # x) # xs))"

text \<open>\<open>d.join(xs)\<close> for a one-character separator.\<close>

fun join :: "char \<Rightarrow> string list \<Rightarrow> string" where
  "join d [] = []"
| "join d [x] = x"
| "join d (x # y # ys) = x @ d # join d (y # ys)"

section \<open>Option block recovery: \<open>parse_options\<close>\<close>

datatype exn = AssertionError | KeyError | IndexError | YAMLError

text \<open>
  \<open>PAT_WHITESPACE = re.compile(r'^\x20*')\<close>: \<open>PAT_WHITESPACE.match(line)\<close> is the match
  object, here its \<open>group(0)\<close>, or \<open>None\<close>. The star is greedy and nothing follows it,
  so the match is the longest run of U+0020 at the start of the line.
\<close>

definition PAT_WHITESPACE_match :: "string \<Rightarrow> string option" where
  "PAT_WHITESPACE_match line = Some (takeWhile (\<lambda>c. c = CHR 0x20) line)"

text \<open>
  The field marker pattern is a constant of docutils, \<open>Body.patterns['field_marker']\<close>,
  and not part of the source; in docutils 0.14, the release this parser was written
  against, it is
  \<^verbatim>\<open>:(?![: ])([^:\\]|\\.)*(?<! ):( +|$)\<close>.
  \<open>parse_options\<close> below takes the matcher as the parameter \<open>fm\<close>: \<open>fm s\<close> is
  \<open>group(0)\<close> of \<open>re.match(pattern, s)\<close>, or \<open>None\<close> when the pattern does not match
  at the start of \<open>s\<close>. \<open>field_marker\<close> is the matcher of the pattern above.

  The repetition consumes one unit at a time: a character other than \<open>:\<close> and backslash,
  or a backslash and a character other than a newline. \<open>fm_units\<close> returns what is left
  after the longest run of units. A shorter run ends before a character that starts a
  unit, which is not the closing \<open>:\<close>, so backtracking into the repetition never matches
  and only the longest run is tried.
\<close>

fun fm_units :: "string \<Rightarrow> string" where
  "fm_units [] = []"
| "fm_units (c # cs) =
     (if c = CHR '':'' then c # cs
      else if c = CHR 0x5C then
        (case cs of
           [] \<Rightarrow> c # cs
         | d # ds \<Rightarrow> if d = CHR 0x0A then c # cs else fm_units ds)
      else fm_units cs)"

definition field_marker :: "string \<Rightarrow> string option" where
  "field_marker s =
     (case s of
        [] \<Rightarrow> None
      | c # cs \<Rightarrow>
          if c \<noteq> CHR '':'' then None
          else if cs \<noteq> [] \<and> (hd cs = CHR '':'' \<or> hd cs = CHR 0x20) then None
          else
            (let rest = fm_units cs;
                 name = take (length cs - length rest) cs
             in case rest of
                  [] \<Rightarrow> None
                | r # after \<Rightarrow>
                    if r \<noteq> CHR '':'' then None
                    else if name \<noteq> [] \<and> last name = CHR 0x20 then None
                    else if after \<noteq> [] \<and> hd after = CHR 0x20
                      then Some (c # name @ r # takeWhile (\<lambda>x. x = CHR 0x20) after)
                    else if after = [] \<or> after = [CHR 0x0A] then Some (c # name @ [r])
                    else None))"

text \<open>
  The loop state: \<open>current_key\<close> (\<open>None\<close> until a field marker is seen), the
  dictionary \<open>kv\<close> in insertion order (a Python \<open>dict\<close> keeps a key's first position
  when the key is assigned again, as \<open>AList.update\<close> does) and \<open>base_indentation\<close>.
\<close>

record po_state =
  current_key :: "string option"
  kv :: "(string \<times> string) list"
  base_indentation :: nat

datatype flow = Continue po_state | Break po_state

definition po_init :: po_state where
  "po_init = \<lparr>current_key = None, kv = [], base_indentation = 0\<rparr>"

text \<open>
  One iteration of \<open>for i, line in enumerate(lines)\<close>. The two assertions and the
  lookup in \<open>kv[current_key] += ...\<close> are the places where the body can raise.
\<close>

definition po_step :: "(string \<Rightarrow> string option) \<Rightarrow> po_state \<Rightarrow> nat \<times> string \<Rightarrow> exn + flow" where
  "po_step fm st il =
     (let i = fst il; line = snd il in
      if i = 0 then Inr (Continue st)
      else
        let stripped = strip line in
        if stripped = [] then Inr (Continue st)
        else
          (case PAT_WHITESPACE_match line of
             None \<Rightarrow> Inl AssertionError
           | Some ws \<Rightarrow>
               let indentation = length ws;
                   st1 = (if base_indentation st = 0
                          then st\<lparr>base_indentation := indentation\<rparr> else st)
               in
               (case fm stripped of
                  Some g \<Rightarrow>
                    let value = drop (length g) stripped;
                        key = strip_chars (CHR '':'') (strip g)
                    in Inr (Continue (st1\<lparr>current_key := Some key,
                                           kv := AList.update key value (kv st1)\<rparr>))
                | None \<Rightarrow>
                    if indentation = base_indentation st1 then Inr (Break st1)
                    else
                      (case current_key st1 of
                         None \<Rightarrow> Inr (Continue st1)
                       | Some k \<Rightarrow>
                           if k = [] then Inr (Continue st1)
                           else
                             (case map_of (kv st1) k of
                                None \<Rightarrow> Inl KeyError
                              | Some v \<Rightarrow>
                                  Inr (Continue (st1\<lparr>kv := AList.update k
                                    (v @ CHR 0x0A # drop indentation line) (kv st1)\<rparr>)))))))"

fun po_loop :: "(string \<Rightarrow> string option) \<Rightarrow> po_state \<Rightarrow> (nat \<times> string) list \<Rightarrow> exn + po_state" where
  "po_loop fm st [] = Inr st"
| "po_loop fm st (il # ils) =
     (case po_step fm st il of
        Inl e \<Rightarrow> Inl e
      | Inr (Break st') \<Rightarrow> Inr st'
      | Inr (Continue st') \<Rightarrow> po_loop fm st' ils)"

definition parse_options_with :: "(string \<Rightarrow> string option) \<Rightarrow> string \<Rightarrow> exn + (string \<times> string) list" where
  "parse_options_with fm block_text =
     (let lines = split_on (CHR 0x0A) block_text in
      case po_loop fm po_init (enumerate 0 lines) of
        Inl e \<Rightarrow> Inl e
      | Inr st \<Rightarrow> Inr (kv st))"

definition parse_options :: "string \<Rightarrow> exn + (string \<times> string) list" where
  "parse_options block_text = parse_options_with field_marker block_text"

text \<open>Helpers for stating properties of the loop: the invariant that the active key
  is a key of \<open>kv\<close>, the state a step ends in, a line's indentation as the loop computes it,
  and the assignment \<open>if base_indentation == 0: base_indentation = indentation\<close>.\<close>

definition po_inv :: "po_state \<Rightarrow> bool" where
  "po_inv st = (case current_key st of None \<Rightarrow> True | Some k \<Rightarrow> k \<in> fst ` set (kv st))"

fun flow_state :: "flow \<Rightarrow> po_state" where
  "flow_state (Continue st) = st"
| "flow_state (Break st) = st"

definition indentation_of :: "string \<Rightarrow> nat" where
  "indentation_of line = length (takeWhile (\<lambda>c. c = CHR 0x20) line)"

definition latch :: "po_state \<Rightarrow> nat \<Rightarrow> po_state" where
  "latch st ind = (if base_indentation st = 0 then st\<lparr>base_indentation := ind\<rparr> else st)"

text \<open>The first non-blank line after the invocation line, if there is one.\<close>

definition first_nonblank :: "string list \<Rightarrow> string option" where
  "first_nonblank lines = List.find (\<lambda>l. strip l \<noteq> []) (drop 1 lines)"

section \<open>Role nodes\<close>

text \<open>
  \<open>PAT_EXPLICIT_TILE = re.compile(r'^(?P<label>.+?)\s*(?<!\x00)<(?P<target>.*?)>$', re.DOTALL)\<close>.
  A backtracking matcher tries the alternatives of a lazy quantifier shortest first;
  \<open>first_some\<close> returns the first alternative that leads to a match.
\<close>

fun first_some :: "('a \<Rightarrow> 'b option) \<Rightarrow> 'a list \<Rightarrow> 'b option" where
  "first_some f [] = None"
| "first_some f (x # xs) = (case f x of Some y \<Rightarrow> Some y | None \<Rightarrow> first_some f xs)"

text \<open>
  \<open>$\<close> without \<open>re.MULTILINE\<close> matches at the end of the string and before a newline
  that is the last character.
\<close>

definition at_dollar :: "string \<Rightarrow> nat \<Rightarrow> bool" where
  "at_dollar s j \<longleftrightarrow> j = length s \<or> (Suc j = length s \<and> s ! j = CHR 0x0A)"

text \<open>
  \<open>(?P<target>.*?)>$\<close> from position \<open>p\<close>: the lazy target grows one character at a
  time (any character, by \<open>re.DOTALL\<close>) until a \<open>>\<close> stands at \<open>$\<close>. The result is the
  position of that \<open>>\<close>.
\<close>

definition match_target :: "string \<Rightarrow> nat \<Rightarrow> nat option" where
  "match_target s p =
     List.find (\<lambda>j. s ! j = CHR ''>'' \<and> at_dollar s (Suc j)) [p..<length s]"

text \<open>
  \<open>\s*(?<!\x00)<\<close> and the rest, after a label of \<open>n\<close> characters. \<open>\s*\<close> is greedy; giving
  back a whitespace character would put \<open><\<close> on a whitespace character, so only the
  longest run is tried. The result is the positions of \<open><\<close> and of the final \<open>>\<close>.
\<close>

definition match_after_label :: "string \<Rightarrow> nat \<Rightarrow> (nat \<times> nat) option" where
  "match_after_label s n =
     (let q = n + length (takeWhile is_space (drop n s)) in
      if q < length s \<and> s ! q = CHR ''<'' \<and> s ! (q - 1) \<noteq> CHR 0x00
      then map_option (\<lambda>j. (q, j)) (match_target s (Suc q))
      else None)"

text \<open>
  The whole pattern: the lazy label \<open>.+?\<close> takes 1, 2, ... characters. The result is
  \<open>(match['label'], match['target'])\<close>.
\<close>

definition PAT_EXPLICIT_TILE_match :: "string \<Rightarrow> (string \<times> string) option" where
  "PAT_EXPLICIT_TILE_match s =
     first_some
       (\<lambda>n. map_option (\<lambda>(q, j). (take n s, take (j - Suc q) (drop (Suc q) s)))
              (match_after_label s n))
       [1..<Suc (length s)]"

section \<open>Nodes\<close>

text \<open>
  The docutils node classes the parser builds. \<open>label\<close> is the \<open>label\<close> attribute of a
  role: the dictionary \<open>{'type': 'text', 'value': ..., 'position': {'start': {'line':
  ...}}}\<close> or the plain text. An option value is a string (\<open>parse_options\<close>) or \<open>True\<close> (the
  \<open>hidden\<close> option of a migrated tab set). \<open>element\<close> stands for any node the markup
  engine itself produces.
\<close>

datatype label = LabelDict string int | LabelText string

datatype opt_value = OptStr string | OptBool bool

datatype node =
    Text string
  | directive string "(string \<times> opt_value) list" "node list" "string option" "int option"
  | directive_argument string "node list" "string option" "int option"
  | FixedTextElement string "node list" "string option" "int option"
  | role string string label string
  | system_message nat string int
  | element string "node list"

text \<open>
  The text a node contains: a \<open>Text\<close> is its text, a system message its message, and an
  element contains the texts of its children one after the other. For a text element such
  as \<open>FixedTextElement\<close> this is what \<open>astext()\<close> returns.
\<close>

fun contained_text :: "node \<Rightarrow> string" where
  "contained_text (Text s) = s"
| "contained_text (directive n opts ch src ln) = concat (map contained_text ch)"
| "contained_text (directive_argument raw ch src ln) = concat (map contained_text ch)"
| "contained_text (FixedTextElement raw ch src ln) = concat (map contained_text ch)"
| "contained_text (role n raw l t) = []"
| "contained_text (system_message lvl msg ln) = msg"
| "contained_text (element tag ch) = concat (map contained_text ch)"

text \<open>\<open>role.__init__\<close> and \<open>handle_role\<close>.\<close>

definition role_init :: "string \<Rightarrow> string \<Rightarrow> string \<Rightarrow> int \<Rightarrow> node" where
  "role_init name rawtext text lineno =
     (case PAT_EXPLICIT_TILE_match text of
        Some (l, t) \<Rightarrow> role name text (LabelDict l lineno) t
      | None \<Rightarrow> role name text (LabelText text) text)"

definition handle_role :: "string \<Rightarrow> string \<Rightarrow> string \<Rightarrow> int \<Rightarrow> node list \<times> node list" where
  "handle_role typ rawtext text lineno = ([role_init typ rawtext text lineno], [])"

section \<open>The generic directive builder\<close>

text \<open>
  The markup engine (the docutils state and state machine of a directive) is a parameter:
  \<open>get_source_and_line\<close>, \<open>inline_text\<close> (text nodes and messages), \<open>nested_parse\<close> (the
  nodes it appends to the node it is given, for a list of content lines and an input
  offset) and the state machine's \<open>line_offset\<close>.
\<close>

record engine =
  get_source_and_line :: "int \<Rightarrow> string option \<times> int option"
  inline_text :: "string \<Rightarrow> int \<Rightarrow> node list \<times> node list"
  nested_parse :: "string list \<Rightarrow> int \<Rightarrow> node list"
  line_offset :: int

text \<open>The fields of a directive instance that \<open>run\<close> reads.\<close>

record directive_inst =
  self_name :: string
  self_arguments :: "string list"
  self_content :: "string list"
  self_block_text :: string
  self_lineno :: int

definition SPECIAL_DIRECTIVES :: "string set" where
  "SPECIAL_DIRECTIVES =
     {''code-block'', ''include'', ''tabs-drivers'', ''tabs'', ''tabs-platforms'', ''only''}"

text \<open>
  \<open>Directive.run\<close>. \<open>add_name\<close> acts only on a \<open>name\<close> entry of \<open>self.options\<close>, and no
  option specification of these classes admits one, so it leaves the node as it is.
\<close>

definition Directive_run :: "engine \<Rightarrow> directive_inst \<Rightarrow> exn + node list" where
  "Directive_run eng self =
     (let (source, line) = get_source_and_line eng (self_lineno self);
          argument =
            (if self_arguments self \<noteq> [] then
               let argument_text = hd (split_on (CHR 0x0A) (hd (self_arguments self)));
                   (textnodes, messages) = inline_text eng argument_text (self_lineno self)
               in [directive_argument argument_text textnodes source line]
             else [])
      in case parse_options (self_block_text self) of
           Inl e \<Rightarrow> Inl e
         | Inr options \<Rightarrow>
             let body =
               (if self_name self \<in> SPECIAL_DIRECTIVES
                then [FixedTextElement [] [] source line]
                else nested_parse eng (self_content self) (line_offset eng))
             in Inr [directive (self_name self) (map (\<lambda>(k, v). (k, OptStr v)) options)
                       (argument @ body) source line])"

section \<open>The legacy tab syntax\<close>

text \<open>
  \<open>s.expandtabs()\<close> with the default tab size 8: the column starts again after a newline
  or a carriage return.
\<close>

fun expandtabs_from :: "nat \<Rightarrow> string \<Rightarrow> string" where
  "expandtabs_from col [] = []"
| "expandtabs_from col (c # cs) =
     (if c = CHR 0x09 then
        replicate (8 - col mod 8) (CHR 0x20) @ expandtabs_from (col + (8 - col mod 8)) cs
      else if c = CHR 0x0A \<or> c = CHR 0x0D then c # expandtabs_from 0 cs
      else c # expandtabs_from (Suc col) cs)"

definition expandtabs :: "string \<Rightarrow> string" where
  "expandtabs s = expandtabs_from 0 s"

text \<open>
  \<open>s.splitlines()\<close>: the line boundaries among U+0000 to U+00FF, with \<open>\r\n\<close> as one
  boundary; no empty last line after a final boundary. \<open>cur\<close> is the line read so far.
\<close>

definition is_linebreak :: "char \<Rightarrow> bool" where
  "is_linebreak c \<longleftrightarrow> c \<in> set [CHR 0x0A, CHR 0x0B, CHR 0x0C, CHR 0x0D,
     CHR 0x1C, CHR 0x1D, CHR 0x1E, CHR 0x85]"

fun splitlines_from :: "string \<Rightarrow> string \<Rightarrow> string list" where
  "splitlines_from cur [] = (if cur = [] then [] else [cur])"
| "splitlines_from cur [c] = (if is_linebreak c then [cur] else [cur @ [c]])"
| "splitlines_from cur (c # d # ds) =
     (if c = CHR 0x0D \<and> d = CHR 0x0A then cur # splitlines_from [] ds
      else if is_linebreak c then cur # splitlines_from [] (d # ds)
      else splitlines_from (cur @ [c]) (d # ds))"

definition splitlines :: "string \<Rightarrow> string list" where
  "splitlines s = splitlines_from [] s"

text \<open>\<open>sys.maxsize\<close> of a 64-bit build.\<close>

definition maxsize :: nat where
  "maxsize = 2 ^ 63 - 1"

text \<open>The loop that finds the minimum indentation of the non-blank lines.\<close>

fun find_margin :: "nat \<Rightarrow> string list \<Rightarrow> nat" where
  "find_margin margin [] = margin"
| "find_margin margin (line # lines) =
     (let content = length (lstrip line) in
      if content \<noteq> 0 then find_margin (min margin (length line - content)) lines
      else find_margin margin lines)"

definition prepare_viewlist :: "string \<Rightarrow> nat \<Rightarrow> string list" where
  "prepare_viewlist text ignore =
     (let lines = splitlines (expandtabs text);
          margin = find_margin maxsize (drop ignore lines);
          lines1 = map lstrip (take ignore lines) @ drop ignore lines;
          lines2 = (if margin < maxsize
                    then take ignore lines1 @ map (drop margin) (drop ignore lines1)
                    else lines1);
          lines3 = dropWhile (\<lambda>l. l = []) lines2
      in if lines3 \<noteq> [] \<and> last lines3 \<noteq> [] then lines3 @ [[]] else lines3)"

text \<open>
  The legacy definitions, as \<open>check_type\<close> returns them, and a \<open>LoadError\<close>: its message
  and the \<open>__line__\<close> of its \<open>bad_data\<close> when that has one.
\<close>

record LegacyTabDefinition =
  tab_line :: int
  tab_id :: string
  tab_title :: "string option"
  tab_content :: string

record LegacyTabsDefinition =
  tabs_line :: int
  hidden :: "bool option"
  tabs :: "LegacyTabDefinition list"

record LoadError =
  message :: string
  bad_data_line :: "int option"

text \<open>
  \<open>load_yaml\<close> and \<open>check_type\<close> belong to the package \<open>gizaparser\<close>, which is not part of
  the source; they are parameters. \<open>'y\<close> is the type of decoded YAML data. \<open>load_yaml\<close>
  returns the documents of a text or raises; \<open>check_type\<close> applied to
  \<open>LegacyTabsDefinition\<close> returns the typed value or raises a \<open>LoadError\<close>.
\<close>

record 'y gizaparser =
  load_yaml :: "string \<Rightarrow> exn + 'y list"
  check_type :: "'y \<Rightarrow> LoadError + LegacyTabsDefinition"

text \<open>\<open>s.split(d, 1)\<close>: at most one split, at the first separator.\<close>

definition split1 :: "char \<Rightarrow> string \<Rightarrow> string list" where
  "split1 d s =
     (if d \<in> set s then [takeWhile (\<lambda>c. c \<noteq> d) s, tl (dropWhile (\<lambda>c. c \<noteq> d) s)] else [s])"

definition make_tab_node ::
  "engine \<Rightarrow> directive_inst \<Rightarrow> string option \<Rightarrow> LegacyTabDefinition \<Rightarrow> node" where
  "make_tab_node eng self source child =
     (let line = self_lineno self + tab_line child;
          argument_text = tab_id child;
          (textnodes, messages) = inline_text eng argument_text line;
          argument = directive_argument argument_text textnodes source (Some line);
          content_lines = prepare_viewlist (tab_content child) 1
      in directive ''tab'' []
           (argument # nested_parse eng content_lines (line_offset eng)) source (Some line))"

text \<open>
  The branch of \<open>TabsDirective.run\<close> for the old syntax. \<open>reporter.error\<close> returns a
  system message of level 3 with the given line; with the default halt level it raises
  nothing.
\<close>

definition legacy_tabs :: "'y gizaparser \<Rightarrow> engine \<Rightarrow> directive_inst \<Rightarrow> exn + node list" where
  "legacy_tabs giza eng self =
     (case load_yaml giza (join (CHR 0x0A) (self_content self)) of
        Inl e \<Rightarrow> Inl e
      | Inr [] \<Rightarrow> Inl IndexError
      | Inr (parsed # others) \<Rightarrow>
          (case check_type giza parsed of
             Inl err \<Rightarrow>
               let line = self_lineno self
                     + (case bad_data_line err of Some l \<Rightarrow> l | None \<Rightarrow> 0) + 1
               in Inr [system_message 3 (message err) line]
           | Inr loaded \<Rightarrow>
               let tabset = last (split1 (CHR ''-'') (self_name self));
                   (source, line) = get_source_and_line eng (self_lineno self);
                   options0 = (if hidden loaded = Some True
                               then AList.update ''hidden'' (OptBool True) [] else []);
                   options = (if tabset \<noteq> [] \<and> tabset \<noteq> ''tabs''
                              then AList.update ''tabset'' (OptStr tabset) options0
                              else options0)
               in Inr [directive ''tabs'' options
                         (map (make_tab_node eng self source) (tabs loaded)) source line]))"

definition TabsDirective_run :: "'y gizaparser \<Rightarrow> engine \<Rightarrow> directive_inst \<Rightarrow> exn + node list" where
  "TabsDirective_run giza eng self =
     (if list_ex (\<lambda>line. line = ''tabs:'') (self_content self)
      then legacy_tabs giza eng self
      else Directive_run eng self)"

section \<open>Name resolution\<close>

datatype directive_class = TabsDirective | Directive

definition starts_with :: "string \<Rightarrow> string \<Rightarrow> bool" where
  "starts_with p s \<longleftrightarrow> take (length p) s = p"

definition lookup_directive :: "string \<Rightarrow> directive_class \<times> node list" where
  "lookup_directive directive_name =
     (if starts_with ''tabs'' directive_name then (TabsDirective, []) else (Directive, []))"

definition lookup_role ::
  "string \<Rightarrow> (string \<Rightarrow> string \<Rightarrow> string \<Rightarrow> int \<Rightarrow> node list \<times> node list) option \<times> node list" where
  "lookup_role role_name = (Some handle_role, [])"

text \<open>Running the class that a name resolved to.\<close>

fun run :: "directive_class \<Rightarrow> 'y gizaparser \<Rightarrow> engine \<Rightarrow> directive_inst \<Rightarrow> exn + node list" where
  "run TabsDirective giza eng self = TabsDirective_run giza eng self"
| "run Directive giza eng self = Directive_run eng self"

text \<open>
  For the properties of \<open>prepare_viewlist\<close>: a line's indentation as the margin loop measures
  it, and the least indentation of the non-blank lines, capped by \<open>sys.maxsize\<close>.
\<close>

definition indent_of :: "string \<Rightarrow> nat" where
  "indent_of line = length line - length (lstrip line)"

definition common_margin :: "string list \<Rightarrow> nat" where
  "common_margin lines =
     Min (insert maxsize (set (map indent_of (filter (\<lambda>l. lstrip l \<noteq> []) lines))))"

text \<open>
  For the properties of the role pattern: the position of the \<open>>\<close> that stands at the
  end of the text (or before a final newline), and the positions where the pattern can
  split: a \<open><\<close> that is not the first character, does not follow U+0000 and comes before
  that \<open>>\<close>.
\<close>

definition closing :: "string \<Rightarrow> nat option" where
  "closing s =
     (if s \<noteq> [] \<and> last s = CHR ''>'' then Some (length s - 1)
      else if 2 \<le> length s \<and> last s = CHR 0x0A \<and> s ! (length s - 2) = CHR ''>''
        then Some (length s - 2)
      else None)"

definition split_at :: "string \<Rightarrow> nat \<Rightarrow> bool" where
  "split_at s p \<longleftrightarrow>
     0 < p \<and> p < length s \<and> s ! p = CHR ''<'' \<and> s ! (p - 1) \<noteq> CHR 0x00 \<and>
     (case closing s of None \<Rightarrow> False | Some j \<Rightarrow> p < j)"

section \<open>Properties of option recovery\<close>

lemma latch_simps [simp]:
  "current_key (latch st ind) = current_key st"
  "kv (latch st ind) = kv st"
  "base_indentation (latch st ind) = (if base_indentation st = 0 then ind else base_indentation st)"
  by (simp_all add: latch_def)

lemma update_dom: "fst ` set (AList.update k v al) = insert k (fst ` set al)"
  by (induction al) auto

lemma map_of_in_dom: "k \<in> fst ` set al \<Longrightarrow> \<exists>v. map_of al k = Some v"
  by (induction al) auto

lemma po_init_inv: "po_inv po_init"
  by (simp add: po_inv_def po_init_def)

lemma po_step_skip:
  "i = 0 \<or> strip line = [] \<Longrightarrow> po_step fm st (i, line) = Inr (Continue st)"
  by (auto simp: po_step_def Let_def)

lemma po_step_marker:
  "0 < i \<Longrightarrow> strip line \<noteq> [] \<Longrightarrow> fm (strip line) = Some g \<Longrightarrow>
   po_step fm st (i, line) =
     Inr (Continue ((latch st (indentation_of line))
       \<lparr>current_key := Some (strip_chars (CHR '':'') (strip g)),
        kv := AList.update (strip_chars (CHR '':'') (strip g))
                (drop (length g) (strip line)) (kv st)\<rparr>))"
  by (simp add: po_step_def Let_def PAT_WHITESPACE_match_def latch_def indentation_of_def)

lemma po_step_plain:
  "0 < i \<Longrightarrow> strip line \<noteq> [] \<Longrightarrow> fm (strip line) = None \<Longrightarrow>
   po_step fm st (i, line) =
     (let st1 = latch st (indentation_of line) in
      if indentation_of line = base_indentation st1 then Inr (Break st1)
      else
        (case current_key st of
           None \<Rightarrow> Inr (Continue st1)
         | Some k \<Rightarrow>
             if k = [] then Inr (Continue st1)
             else
               (case map_of (kv st) k of
                  None \<Rightarrow> Inl KeyError
                | Some v \<Rightarrow>
                    Inr (Continue (st1\<lparr>kv := AList.update k
                      (v @ CHR 0x0A # drop (indentation_of line) line) (kv st)\<rparr>)))))"
  by (auto simp: po_step_def Let_def PAT_WHITESPACE_match_def latch_def indentation_of_def
      split: option.splits)

lemma po_step_total:
  assumes "po_inv st"
  shows "\<exists>f. po_step fm st il = Inr f \<and> po_inv (flow_state f)"
proof -
  obtain i line where il: "il = (i, line)" by (cases il)
  show ?thesis
  proof (cases "i = 0 \<or> strip line = []")
    case True
    then show ?thesis using assms il po_step_skip[OF True] by simp
  next
    case False
    then have h: "0 < i" "strip line \<noteq> []" by auto
    show ?thesis
    proof (cases "fm (strip line)")
      case (Some g)
      show ?thesis
        unfolding il po_step_marker[where fm=fm and line=line, OF h Some]
        by (simp add: po_inv_def update_dom)
    next
      case None
      show ?thesis
      proof (cases "current_key st")
        case N: None
        then show ?thesis
          unfolding il po_step_plain[where fm=fm and line=line, OF h None]
          by (simp add: po_inv_def Let_def)
      next
        case (Some k)
        then have "k \<in> fst ` set (kv st)" using assms by (simp add: po_inv_def)
        then obtain v where v: "map_of (kv st) k = Some v" using map_of_in_dom by fastforce
        show ?thesis
          unfolding il po_step_plain[where fm=fm and line=line, OF h None]
          using Some v assms by (force simp: po_inv_def Let_def update_dom)
      qed
    qed
  qed
qed

lemma po_loop_total:
  "po_inv st \<Longrightarrow> \<exists>st'. po_loop fm st ils = Inr st'"
proof (induction ils arbitrary: st)
  case Nil
  then show ?case by simp
next
  case (Cons il ils)
  from po_step_total[OF Cons.prems] obtain f where f: "po_step fm st il = Inr f" "po_inv (flow_state f)"
    by blast
  show ?case
  proof (cases f)
    case (Continue s)
    then show ?thesis using f Cons.IH[of s] by simp
  next
    case (Break s)
    then show ?thesis using f by simp
  qed
qed

lemma split_on_no_sep: "d \<notin> set a \<Longrightarrow> split_on d a = [a]"
  by (induction a) auto

lemma split_on_append: "d \<notin> set a \<Longrightarrow> split_on d (a @ d # b) = a # split_on d b"
  by (induction a) auto

lemma strip_indent: "strip (replicate n (CHR 0x20) @ s) = strip s"
proof -
  have "dropWhile is_space (replicate n (CHR 0x20) @ s) = dropWhile is_space s"
    by (induction n) (simp_all add: is_space_def)
  then show ?thesis by (simp add: strip_def lstrip_def)
qed

lemma indentation_of_indent:
  "s = [] \<or> hd s \<noteq> CHR 0x20 \<Longrightarrow> indentation_of (replicate n (CHR 0x20) @ s) = n"
  unfolding indentation_of_def by (induction n) (cases s; simp)+

lemma po_step_base:
  assumes "po_step fm st (i, line) = Inr f"
  shows "base_indentation (flow_state f) =
     (if i = 0 \<or> strip line = [] then base_indentation st
      else if base_indentation st = 0 then indentation_of line else base_indentation st)"
proof (cases "i = 0 \<or> strip line = []")
  case True
  then show ?thesis using assms po_step_skip[OF True, of fm st] by auto
next
  case False
  then have h: "0 < i" "strip line \<noteq> []" by auto
  show ?thesis
  proof (cases "fm (strip line)")
    case (Some g)
    show ?thesis
      using assms False unfolding po_step_marker[where fm=fm and line=line, OF h Some]
      by auto
  next
    case None
    show ?thesis
      using assms False unfolding po_step_plain[where fm=fm and line=line, OF h None]
      by (auto simp: Let_def split: if_splits option.splits)
  qed
qed

lemma po_loop_base_fixed:
  "base_indentation st \<noteq> 0 \<Longrightarrow> po_loop fm st ils = Inr st' \<Longrightarrow>
   base_indentation st' = base_indentation st"
proof (induction ils arbitrary: st)
  case Nil
  then show ?case by simp
next
  case (Cons il ils)
  obtain i line where il: "il = (i, line)" by (cases il)
  from Cons.prems(2) obtain f where f: "po_step fm st (i, line) = Inr f"
    unfolding il by (auto split: sum.splits)
  have b: "base_indentation (flow_state f) = base_indentation st"
    using po_step_base[OF f] Cons.prems(1) by auto
  show ?case
  proof (cases f)
    case (Continue s)
    then show ?thesis using Cons.IH[of s] Cons.prems f b il by simp
  next
    case (Break s)
    then show ?thesis using Cons.prems f b il by simp
  qed
qed

lemma po_step_terminates:
  assumes "0 < i" "strip line \<noteq> []" "fm (strip line) = None"
    "base_indentation st = 0 \<or> base_indentation st = indentation_of line"
  shows "po_step fm st (i, line) = Inr (Break (latch st (indentation_of line)))"
  using assms(4) unfolding po_step_plain[where fm=fm and line=line, OF assms(1-3)]
  by (auto simp: Let_def)

lemma po_loop_first_nonblank:
  assumes "List.find (\<lambda>l. strip l \<noteq> []) ls = Some l" "0 < indentation_of l"
    "base_indentation st = 0" "po_inv st" "0 < n"
  shows "\<exists>st'. po_loop fm st (enumerate n ls) = Inr st' \<and>
           base_indentation st' = indentation_of l"
  using assms
proof (induction ls arbitrary: n)
  case Nil
  then show ?case by simp
next
  case (Cons x xs)
  show ?case
  proof (cases "strip x = []")
    case True
    then have "po_step fm st (n, x) = Inr (Continue st)" by (simp add: po_step_skip)
    moreover have "List.find (\<lambda>l. strip l \<noteq> []) xs = Some l" using Cons.prems(1) True by simp
    ultimately show ?thesis using Cons.IH[of "Suc n"] Cons.prems by simp
  next
    case False
    then have xl: "x = l" using Cons.prems(1) by simp
    obtain f where f: "po_step fm st (n, x) = Inr f" "po_inv (flow_state f)"
      using po_step_total[OF Cons.prems(4)] by blast
    have b: "base_indentation (flow_state f) = indentation_of l"
      using po_step_base[OF f(1)] False Cons.prems xl by auto
    show ?thesis
    proof (cases f)
      case (Break s)
      then show ?thesis using f b by simp
    next
      case (Continue s)
      obtain st' where st': "po_loop fm s (enumerate (Suc n) xs) = Inr st'"
        using po_loop_total[of s] f(2) Continue by auto
      have "base_indentation st' = base_indentation s"
        using po_loop_base_fixed[OF _ st'] b Continue Cons.prems(2) by simp
      then show ?thesis using f b Continue st' by simp
    qed
  qed
qed

lemma po_loop_prefix:
  assumes "po_loop fm st pre = Inr s" "0 < i" "strip line \<noteq> []" "fm (strip line) = None"
    "base_indentation s = 0 \<or> base_indentation s = indentation_of line"
  shows "\<exists>s'. po_loop fm st (pre @ (i, line) # rest) = Inr s' \<and> kv s' = kv s"
  using assms(1)
proof (induction pre arbitrary: st)
  case Nil
  then show ?case using po_step_terminates[where fm=fm and line=line and st=s, OF assms(2-5)] by simp
next
  case (Cons x pre)
  show ?case
  proof (cases "po_step fm st x")
    case (Inl e)
    then show ?thesis using Cons.prems by simp
  next
    case (Inr f)
    show ?thesis
    proof (cases f)
      case (Continue t)
      then show ?thesis using Inr Cons.prems Cons.IH[of t] by simp
    next
      case (Break t)
      then show ?thesis using Inr Cons.prems by simp
    qed
  qed
qed

lemma split_on_nonempty: "split_on d s \<noteq> []"
  by (induction s) (auto split: list.splits)

lemma split_on_append_gen: "split_on d (a @ d # b) = split_on d a @ split_on d b"
  by (induction a) (auto split: list.splits simp: split_on_nonempty)

text \<open>
  C9: \<open>parse_options\<close> is total. The whitespace pattern matches every line, so the first
  assertion holds; the value-append branch runs only with an active key that is a key of
  \<open>kv\<close>, so its lookup succeeds; the loop runs once over the finitely many lines. Hence for
  every matcher and every block text the function returns a mapping and raises nothing.
\<close>

theorem parse_options_total:
  "(\<forall>line. PAT_WHITESPACE_match line \<noteq> None) \<and>
   (\<exists>kvs. parse_options_with fm block_text = Inr kvs) \<and>
   (\<exists>kvs. parse_options block_text = Inr kvs)"
proof -
  have a: "\<exists>kvs. parse_options_with f block_text = Inr kvs" for f
  proof -
    obtain st' where "po_loop f po_init (enumerate 0 (split_on (CHR 0x0A) block_text)) = Inr st'"
      using po_loop_total[OF po_init_inv] by blast
    then show ?thesis by (simp add: parse_options_with_def)
  qed
  show ?thesis using a by (simp add: PAT_WHITESPACE_match_def parse_options_def)
qed

text \<open>
  C10: a non-blank line whose stripped text matches the field marker pattern starts a key
  whatever its indentation is: the marker test comes before the indentation test. The step
  continues the loop with that key active and the key's value set to the text after the
  marker. Nothing is appended to the key that was active before, and a key that was in
  \<open>kv\<close> already gets the new value (the last write wins); every other key keeps its value.
\<close>

theorem field_marker_starts_key:
  assumes "0 < i" and "strip line \<noteq> []" and "fm (strip line) = Some g"
  shows "\<exists>st'. po_step fm st (i, line) = Inr (Continue st') \<and>
           po_loop fm st ((i, line) # rest) = po_loop fm st' rest \<and>
           current_key st' = Some (strip_chars (CHR '':'') (strip g)) \<and>
           kv st' = AList.update (strip_chars (CHR '':'') (strip g))
                      (drop (length g) (strip line)) (kv st) \<and>
           map_of (kv st') = (map_of (kv st))
             (strip_chars (CHR '':'') (strip g) \<mapsto> drop (length g) (strip line))"
  using po_step_marker[where fm=fm and line=line and st=st, OF assms]
  by (simp add: update_conv')

theorem field_marker_starts_key_witness:
  "\<exists>st'. po_step field_marker
      \<lparr>current_key = Some ''a'', kv = [(''a'', ''1''), (''b'', ''2'')], base_indentation = 3\<rparr>
      (2, ''         :a: 9'') = Inr (Continue st') \<and>
     po_loop field_marker
      \<lparr>current_key = Some ''a'', kv = [(''a'', ''1''), (''b'', ''2'')], base_indentation = 3\<rparr>
      [(2, ''         :a: 9'')] = Inr st' \<and>
     current_key st' = Some ''a'' \<and> kv st' = [(''a'', ''9''), (''b'', ''2'')]"
proof -
  have s: "strip ''         :a: 9'' = '':a: 9''"
    by (simp add: strip_def lstrip_def rstrip_def is_space_def)
  have f: "field_marker '':a: 9'' = Some '':a: ''"
    by (simp add: field_marker_def)
  have k: "strip_chars (CHR '':'') (strip '':a: '') = ''a''"
    by (simp add: strip_chars_def strip_def lstrip_def rstrip_def is_space_def)
  show ?thesis
    using field_marker_starts_key[of 2 "''         :a: 9''" field_marker "'':a: ''"
      "\<lparr>current_key = Some ''a'', kv = [(''a'', ''1''), (''b'', ''2'')], base_indentation = 3\<rparr>" "[]"]
    by (auto simp: s f k)
qed

text \<open>
  C8: a directive block whose body is the line \<open>:key: a\<close> at the body indentation
  \<open>n > 0\<close>, followed by the lines \<open>b\<close> and \<open>c\<close> indented deeper (by \<open>m > n\<close>):
  option recovery returns the lines \<open>a\<close>, \<open>b\<close>, \<open>c\<close> joined by newlines for \<open>key\<close>, each continuation
  line without its own leading indentation.
\<close>

theorem key_continuation_lines:
  assumes "0 < n" and "n < m" and "CHR 0x0A \<notin> set invocation"
  shows "parse_options (invocation @ CHR 0x0A # replicate n (CHR 0x20) @ '':key: a'' @
           CHR 0x0A # replicate m (CHR 0x20) @ ''b'' @
           CHR 0x0A # replicate m (CHR 0x20) @ ''c'')
         = Inr [(''key'', ''a\<newline>b\<newline>c'')]"
proof -
  let ?l1 = "replicate n (CHR 0x20) @ '':key: a''"
  let ?l2 = "replicate m (CHR 0x20) @ ''b''"
  let ?l3 = "replicate m (CHR 0x20) @ ''c''"
  have nl: "CHR 0x0A \<notin> set ?l1" "CHR 0x0A \<notin> set ?l2" "CHR 0x0A \<notin> set ?l3"
    by auto
  have lines: "split_on (CHR 0x0A) (invocation @ CHR 0x0A # replicate n (CHR 0x20) @ '':key: a'' @
           CHR 0x0A # replicate m (CHR 0x20) @ ''b'' @
           CHR 0x0A # replicate m (CHR 0x20) @ ''c'')
      = [invocation, ?l1, ?l2, ?l3]"
    using split_on_append[OF assms(3), of "?l1 @ CHR 0x0A # ?l2 @ CHR 0x0A # ?l3"]
      split_on_append[OF nl(1), of "?l2 @ CHR 0x0A # ?l3"] split_on_append[OF nl(2), of ?l3]
      split_on_no_sep[OF nl(3)] by simp
  have en: "enumerate 0 [invocation, ?l1, ?l2, ?l3] = [(0, invocation), (1, ?l1), (2, ?l2), (3, ?l3)]"
    by simp
  have s1: "strip ?l1 = '':key: a''" and s2: "strip ?l2 = ''b''" and s3: "strip ?l3 = ''c''"
    unfolding strip_indent by (simp_all add: strip_def lstrip_def rstrip_def is_space_def)
  have f1: "field_marker '':key: a'' = Some '':key: ''"
    and f2: "field_marker ''b'' = None" and f3: "field_marker ''c'' = None"
    by (simp_all add: field_marker_def)
  have k: "strip_chars (CHR '':'') (strip '':key: '') = ''key''"
    by (simp add: strip_chars_def strip_def lstrip_def rstrip_def is_space_def)
  have i1: "indentation_of ?l1 = n" and i2: "indentation_of ?l2 = m" and i3: "indentation_of ?l3 = m"
    by (simp_all add: indentation_of_indent)
  have st0: "po_step field_marker po_init (0, invocation) = Inr (Continue po_init)"
    by (simp add: po_step_skip)
  define st1 where "st1 = \<lparr>current_key = Some ''key'', kv = [(''key'', ''a'')], base_indentation = n\<rparr>"
  define st2 where "st2 = \<lparr>current_key = Some ''key'', kv = [(''key'', ''a\<newline>b'')], base_indentation = n\<rparr>"
  define st3 where "st3 = \<lparr>current_key = Some ''key'', kv = [(''key'', ''a\<newline>b\<newline>c'')], base_indentation = n\<rparr>"
  have a1: "po_step field_marker po_init (1, ?l1) = Inr (Continue st1)"
    using po_step_marker[where fm=field_marker and line="?l1" and i=1 and g="'':key: ''" and st=po_init]
    by (simp add: s1 f1 k i1 st1_def po_init_def latch_def)
  have a2: "po_step field_marker st1 (2, ?l2) = Inr (Continue st2)"
    using po_step_plain[where fm=field_marker and line="?l2" and i=2 and st=st1] assms
    by (simp add: s2 f2 i2 st1_def st2_def latch_def Let_def)
  have a3: "po_step field_marker st2 (3, ?l3) = Inr (Continue st3)"
    using po_step_plain[where fm=field_marker and line="?l3" and i=3 and st=st2] assms
    by (simp add: s3 f3 i3 st2_def st3_def latch_def Let_def)
  have loop: "po_loop field_marker po_init [(0, invocation), (1, ?l1), (2, ?l2), (3, ?l3)] = Inr st3"
    using st0 a1 a2 a3 by simp
  show ?thesis
    by (simp only: parse_options_def parse_options_with_def lines Let_def en loop)
      (simp add: st3_def)
qed

theorem key_continuation_lines_witness:
  "parse_options ''.. note:: arg\<newline>   :key: a\<newline>      b\<newline>      c''
     = Inr [(''key'', ''a\<newline>b\<newline>c'')]"
  using key_continuation_lines[of 3 6 "''.. note:: arg''"] by (simp add: eval_nat_numeral)

text \<open>
  C3, as stated, fails where the first non-blank line has indentation 0: the base
  indentation is still unset (0) after that line, and the next non-blank line sets it. In
  the block below the first body line \<open>:a: 1\<close> has indentation 0, the base indentation
  ends as 3, and the line at indentation 3 ends option recovery, so \<open>:b: 2\<close> at
  indentation 0 is never recovered.
\<close>

theorem base_indentation_relatched:
  "first_nonblank (split_on (CHR 0x0A) ''.. d::\<newline>:a: 1\<newline>   x\<newline>:b: 2'') = Some '':a: 1'' \<and>
   indentation_of '':a: 1'' = 0 \<and>
   po_loop field_marker po_init
     (enumerate 0 (split_on (CHR 0x0A) ''.. d::\<newline>:a: 1\<newline>   x\<newline>:b: 2''))
     = Inr \<lparr>current_key = Some ''a'', kv = [(''a'', ''1'')], base_indentation = 3\<rparr> \<and>
   parse_options ''.. d::\<newline>:a: 1\<newline>   x\<newline>:b: 2'' = Inr [(''a'', ''1'')]"
  by code_simp

text \<open>
  C3, amended: when the first non-blank line after the invocation line has an indentation
  other than 0, that indentation is the base indentation to the end of the loop. A
  non-blank line that is not a field marker and stands at the base indentation in force
  when it is reached (or is reached with the base indentation still unset) ends option
  recovery: the options are those recovered from the lines before it, whatever follows.
\<close>

theorem base_indentation_latch_and_stop:
  "(first_nonblank (split_on (CHR 0x0A) block_text) = Some l \<and> 0 < indentation_of l \<longrightarrow>
      (\<exists>st'. po_loop fm po_init (enumerate 0 (split_on (CHR 0x0A) block_text)) = Inr st' \<and>
             base_indentation st' = indentation_of l)) \<and>
   (po_loop fm po_init (enumerate 0 (split_on (CHR 0x0A) a)) = Inr s \<and>
    CHR 0x0A \<notin> set line \<and> strip line \<noteq> [] \<and> fm (strip line) = None \<and>
    (base_indentation s = 0 \<or> base_indentation s = indentation_of line) \<longrightarrow>
      parse_options_with fm a = Inr (kv s) \<and>
      parse_options_with fm (a @ CHR 0x0A # line) = Inr (kv s) \<and>
      parse_options_with fm (a @ CHR 0x0A # line @ CHR 0x0A # rest) = Inr (kv s))"
proof (intro conjI impI)
  assume h: "first_nonblank (split_on (CHR 0x0A) block_text) = Some l \<and> 0 < indentation_of l"
  obtain l0 ls where ls: "split_on (CHR 0x0A) block_text = l0 # ls"
    using split_on_nonempty[of "CHR 0x0A" block_text] by (cases "split_on (CHR 0x0A) block_text") auto
  have f: "List.find (\<lambda>l. strip l \<noteq> []) ls = Some l"
    using h by (simp add: first_nonblank_def ls)
  have e: "enumerate 0 (l0 # ls) = (0, l0) # enumerate (Suc 0) ls" by simp
  have "\<exists>st'. po_loop fm po_init (enumerate (Suc 0) ls) = Inr st' \<and>
           base_indentation st' = indentation_of l"
    using po_loop_first_nonblank[OF f _ _ po_init_inv, of "Suc 0" fm] h
    by (simp add: po_init_def)
  then show "\<exists>st'. po_loop fm po_init (enumerate 0 (split_on (CHR 0x0A) block_text)) = Inr st' \<and>
             base_indentation st' = indentation_of l"
    unfolding ls e by (simp add: po_step_skip)
next
  assume h: "po_loop fm po_init (enumerate 0 (split_on (CHR 0x0A) a)) = Inr s \<and>
    CHR 0x0A \<notin> set line \<and> strip line \<noteq> [] \<and> fm (strip line) = None \<and>
    (base_indentation s = 0 \<or> base_indentation s = indentation_of line)"
  let ?A = "split_on (CHR 0x0A) a"
  have nl: "CHR 0x0A \<notin> set line" using h by simp
  have pos: "0 < length ?A" using split_on_nonempty[of "CHR 0x0A" a] by simp
  have pre: "\<exists>s'. po_loop fm po_init (enumerate 0 ?A @ (length ?A, line) # tl) = Inr s' \<and> kv s' = kv s" for tl
    using po_loop_prefix[where fm=fm and line=line and pre="enumerate 0 ?A" and st=po_init
        and s=s and i="length ?A" and rest=tl] h pos by simp
  show "parse_options_with fm a = Inr (kv s)"
    using h by (simp add: parse_options_with_def)
  have l1: "split_on (CHR 0x0A) (a @ CHR 0x0A # line) = ?A @ [line]"
    using split_on_no_sep[OF nl] by (simp add: split_on_append_gen)
  show "parse_options_with fm (a @ CHR 0x0A # line) = Inr (kv s)"
    using pre[of "[]"]
    by (auto simp: parse_options_with_def l1 enumerate_append_eq)
  have l2: "split_on (CHR 0x0A) (a @ CHR 0x0A # line @ CHR 0x0A # rest)
      = ?A @ line # split_on (CHR 0x0A) rest"
    using split_on_append[OF nl, of rest] by (simp add: split_on_append_gen)
  show "parse_options_with fm (a @ CHR 0x0A # line @ CHR 0x0A # rest) = Inr (kv s)"
    using pre[of "enumerate (Suc (length ?A)) (split_on (CHR 0x0A) rest)"]
    by (auto simp: parse_options_with_def l2 enumerate_append_eq)
qed

theorem base_indentation_latch_and_stop_witness:
  "first_nonblank (split_on (CHR 0x0A) ''.. d::\<newline>\<newline>   :a: 1\<newline>     x\<newline>   end\<newline>   :b: 2'')
     = Some ''   :a: 1'' \<and>
   0 < indentation_of ''   :a: 1'' \<and>
   (\<exists>st'. po_loop field_marker po_init (enumerate 0
        (split_on (CHR 0x0A) ''.. d::\<newline>\<newline>   :a: 1\<newline>     x\<newline>   end\<newline>   :b: 2'')) = Inr st' \<and>
      base_indentation st' = indentation_of ''   :a: 1'') \<and>
   po_loop field_marker po_init (enumerate 0 (split_on (CHR 0x0A) ''.. d::\<newline>\<newline>   :a: 1\<newline>     x''))
     = Inr \<lparr>current_key = Some ''a'', kv = [(''a'', ''1\<newline>x'')], base_indentation = 3\<rparr> \<and>
   CHR 0x0A \<notin> set ''   end'' \<and> strip ''   end'' \<noteq> [] \<and> field_marker (strip ''   end'') = None \<and>
   indentation_of ''   end'' = 3 \<and>
   parse_options_with field_marker ''.. d::\<newline>\<newline>   :a: 1\<newline>     x'' = Inr [(''a'', ''1\<newline>x'')] \<and>
   parse_options_with field_marker (''.. d::\<newline>\<newline>   :a: 1\<newline>     x'' @ CHR 0x0A # ''   end'')
     = Inr [(''a'', ''1\<newline>x'')] \<and>
   parse_options_with field_marker
     (''.. d::\<newline>\<newline>   :a: 1\<newline>     x'' @ CHR 0x0A # ''   end'' @ CHR 0x0A # ''   :b: 2'')
     = Inr [(''a'', ''1\<newline>x'')]"
proof -
  let ?T = "''.. d::\<newline>\<newline>   :a: 1\<newline>     x\<newline>   end\<newline>   :b: 2''"
  let ?a = "''.. d::\<newline>\<newline>   :a: 1\<newline>     x''"
  let ?s = "\<lparr>current_key = Some ''a'', kv = [(''a'', ''1\<newline>x'')], base_indentation = 3\<rparr>"
  have h1: "first_nonblank (split_on (CHR 0x0A) ?T) = Some ''   :a: 1''" by code_simp
  have h2: "0 < indentation_of ''   :a: 1''" by code_simp
  have h3: "po_loop field_marker po_init (enumerate 0 (split_on (CHR 0x0A) ?a)) = Inr ?s"
    by code_simp
  have h4: "CHR 0x0A \<notin> set ''   end''" by simp
  have h5: "strip ''   end'' \<noteq> []" by code_simp
  have h6: "field_marker (strip ''   end'') = None" by code_simp
  have h7: "indentation_of ''   end'' = 3" by code_simp
  have h8: "base_indentation ?s = 0 \<or> base_indentation ?s = indentation_of ''   end''"
    using h7 by simp
  note t = base_indentation_latch_and_stop[of ?T "''   :a: 1''" field_marker ?a ?s "''   end''"
      "''   :b: 2''"]
  have c1: "\<exists>st'. po_loop field_marker po_init (enumerate 0 (split_on (CHR 0x0A) ?T)) = Inr st' \<and>
      base_indentation st' = indentation_of ''   :a: 1''"
    using t h1 h2 by blast
  have c2: "parse_options_with field_marker ?a = Inr (kv ?s) \<and>
      parse_options_with field_marker (?a @ CHR 0x0A # ''   end'') = Inr (kv ?s) \<and>
      parse_options_with field_marker (?a @ CHR 0x0A # ''   end'' @ CHR 0x0A # ''   :b: 2'') = Inr (kv ?s)"
    using t h3 h4 h5 h6 h8 by blast
  have k: "kv ?s = [(''a'', ''1\<newline>x'')]" by simp
  show ?thesis
    using h1 h2 c1 h3 h4 h5 h6 h7 c2 unfolding k by blast
qed


section \<open>Properties of the directive builders and of name resolution\<close>

lemma parse_options_Inr: "\<exists>kvs. parse_options t = Inr kvs"
proof -
  obtain st' where "po_loop field_marker po_init (enumerate 0 (split_on (CHR 0x0A) t)) = Inr st'"
    using po_loop_total[OF po_init_inv] by blast
  then show ?thesis by (simp add: parse_options_def parse_options_with_def)
qed

lemma tabset_platforms: "last (split1 (CHR ''-'') ''tabs-platforms'') = ''platforms''"
  by (simp add: split1_def)

lemma pv_x: "prepare_viewlist ''X body'' 1 = [''X body'', []]"
  by (simp add: prepare_viewlist_def splitlines_def expandtabs_def is_linebreak_def lstrip_def
      is_space_def)

text \<open>
  C1, as stated, fails: the raw-content child of a special directive is built by
  \<open>FixedTextElement()\<close> with no arguments, so it has no text at all. For a \<open>code-block\<close>
  whose body is \<open>x = 1\<close> the child's text is empty, not the body.
\<close>

theorem raw_child_has_no_text:
  "Directive_run
     \<lparr>get_source_and_line = (\<lambda>n. (Some ''index.txt'', Some n)),
      inline_text = (\<lambda>t n. ([Text t], [])),
      nested_parse = (\<lambda>ls off. map Text ls),
      line_offset = 0\<rparr>
     \<lparr>self_name = ''code-block'', self_arguments = [],
      self_content = [''x = 1''], self_block_text = ''.. code-block::\<newline>\<newline>   x = 1'',
      self_lineno = 1\<rparr>
   = Inr [directive ''code-block'' []
            [FixedTextElement [] [] (Some ''index.txt'') (Some 1)]
            (Some ''index.txt'') (Some 1)] \<and>
   contained_text (FixedTextElement [] [] (Some ''index.txt'') (Some 1)) = [] \<and>
   join (CHR 0x0A) [''x = 1''] = ''x = 1''"
proof -
  have p: "parse_options ''.. code-block::\<newline>\<newline>   x = 1'' = Inr []"
    by code_simp
  show ?thesis
    by (simp add: Directive_run_def p SPECIAL_DIRECTIVES_def)
qed

text \<open>
  C1, amended: for every directive whose name is in the special set, the generic builder
  returns one directive node whose children are the argument node, when there is an
  argument, and then exactly one raw-content node: an empty \<open>FixedTextElement\<close> (no text, no
  children) that carries the directive's source and line. The body is neither parsed nor
  copied: the result does not depend on the content lines or on the nested parser.
\<close>

theorem special_directive_raw_child:
  assumes "self_name self \<in> SPECIAL_DIRECTIVES"
  shows "\<exists>options.
     parse_options (self_block_text self) = Inr options \<and>
     Directive_run eng self =
       Inr [directive (self_name self) (map (\<lambda>(k, v). (k, OptStr v)) options)
              ((if self_arguments self = [] then []
                else [directive_argument (hd (split_on (CHR 0x0A) (hd (self_arguments self))))
                        (fst (inline_text eng (hd (split_on (CHR 0x0A) (hd (self_arguments self))))
                           (self_lineno self)))
                        (fst (get_source_and_line eng (self_lineno self)))
                        (snd (get_source_and_line eng (self_lineno self)))])
               @ [FixedTextElement [] []
                    (fst (get_source_and_line eng (self_lineno self)))
                    (snd (get_source_and_line eng (self_lineno self)))])
              (fst (get_source_and_line eng (self_lineno self)))
              (snd (get_source_and_line eng (self_lineno self)))] \<and>
     contained_text (FixedTextElement [] []
        (fst (get_source_and_line eng (self_lineno self)))
        (snd (get_source_and_line eng (self_lineno self)))) = [] \<and>
     Directive_run (eng\<lparr>nested_parse := np\<rparr>) (self\<lparr>self_content := body\<rparr>)
       = Directive_run eng self"
proof -
  obtain options where o: "parse_options (self_block_text self) = Inr options"
    using parse_options_Inr by blast
  show ?thesis
    using assms by (simp add: Directive_run_def o Let_def split_beta)
qed

theorem special_directive_raw_child_witness:
  "\<exists>options.
     parse_options ''.. include:: a.rst\<newline>   :start-after: begin\<newline>\<newline>   ignored body'' = Inr options \<and>
     Directive_run
       \<lparr>get_source_and_line = (\<lambda>n. (Some ''index.txt'', Some n)),
        inline_text = (\<lambda>t n. ([Text t], [])),
        nested_parse = (\<lambda>ls off. map Text ls),
        line_offset = 0\<rparr>
       \<lparr>self_name = ''include'', self_arguments = [''a.rst''],
        self_content = [''ignored body''],
        self_block_text = ''.. include:: a.rst\<newline>   :start-after: begin\<newline>\<newline>   ignored body'',
        self_lineno = 7\<rparr>
     = Inr [directive ''include'' (map (\<lambda>(k, v). (k, OptStr v)) options)
              [directive_argument ''a.rst'' [Text ''a.rst''] (Some ''index.txt'') (Some 7),
               FixedTextElement [] [] (Some ''index.txt'') (Some 7)]
              (Some ''index.txt'') (Some 7)]"
proof -
  have m: "''include'' \<in> SPECIAL_DIRECTIVES" by (simp add: SPECIAL_DIRECTIVES_def)
  show ?thesis
    using special_directive_raw_child[of
      "\<lparr>self_name = ''include'', self_arguments = [''a.rst''],
        self_content = [''ignored body''],
        self_block_text = ''.. include:: a.rst\<newline>   :start-after: begin\<newline>\<newline>   ignored body'',
        self_lineno = 7\<rparr>"
      "\<lparr>get_source_and_line = (\<lambda>n. (Some ''index.txt'', Some n)),
        inline_text = (\<lambda>t n. ([Text t], [])),
        nested_parse = (\<lambda>ls off. map Text ls),
        line_offset = 0\<rparr>" "\<lambda>ls off. map Text ls" "[''ignored body'']"] m
    by auto
qed

text \<open>
  C4: when the content has a line \<open>tabs:\<close> and \<open>check_type\<close> raises a \<open>LoadError\<close>,
  \<open>TabsDirective.run\<close> returns normally, with exactly one node: the error message of the
  reporter, at line = the directive's line + the \<open>__line__\<close> of the offending data (0
  when it has none) + 1. The result holds no \<open>tabs\<close> or \<open>tab\<close> directive node, and no
  exception leaves the directive.
\<close>

theorem legacy_tabs_validation_error:
  assumes "list_ex (\<lambda>line. line = ''tabs:'') (self_content self)"
    and "load_yaml giza (join (CHR 0x0A) (self_content self)) = Inr (parsed # others)"
    and "check_type giza parsed = Inl err"
  shows "TabsDirective_run giza eng self =
           Inr [system_message 3 (message err)
                  (self_lineno self + (case bad_data_line err of Some off \<Rightarrow> off | None \<Rightarrow> 0) + 1)]"
  using assms by (simp add: TabsDirective_run_def legacy_tabs_def)

theorem legacy_tabs_validation_error_witness:
  "TabsDirective_run
     \<lparr>load_yaml = (\<lambda>t. Inr [t]),
      check_type = (\<lambda>y. Inl \<lparr>message = ''hidden: expected bool'', bad_data_line = Some 2\<rparr>)\<rparr>
     \<lparr>get_source_and_line = (\<lambda>n. (Some ''index.txt'', Some n)),
      inline_text = (\<lambda>t n. ([Text t], [])),
      nested_parse = (\<lambda>ls off. map Text ls),
      line_offset = 0\<rparr>
     \<lparr>self_name = ''tabs'', self_arguments = [],
      self_content = [''hidden: 3'', ''tabs:'', ''  - id: x''],
      self_block_text = ''.. tabs::'', self_lineno = 10\<rparr>
   = Inr [system_message 3 ''hidden: expected bool'' 13]"
  using legacy_tabs_validation_error[of
      "\<lparr>self_name = ''tabs'', self_arguments = [],
        self_content = [''hidden: 3'', ''tabs:'', ''  - id: x''],
        self_block_text = ''.. tabs::'', self_lineno = 10\<rparr>"
      "\<lparr>load_yaml = (\<lambda>t. Inr [t]),
        check_type = (\<lambda>y. Inl \<lparr>message = ''hidden: expected bool'', bad_data_line = Some 2\<rparr>)\<rparr>"
      "''hidden: 3\<newline>tabs:\<newline>  - id: x''" "[]"
      "\<lparr>message = ''hidden: expected bool'', bad_data_line = Some 2\<rparr>"]
  by simp

text \<open>
  C5: a directive invoked as \<open>tabs-platforms\<close> whose content has the line \<open>tabs:\<close> and
  whose legacy definition has the hidden flag set and two items with the ids \<open>x\<close> and \<open>y\<close>
  becomes one directive node named \<open>tabs\<close>, with the options \<open>hidden: True\<close> and then
  \<open>tabset: platforms\<close>, and with two children in order: a \<open>tab\<close> node whose argument is
  \<open>x\<close> and a \<open>tab\<close> node whose argument is \<open>y\<close>, each with empty options.
\<close>

theorem tabs_platforms_migration:
  assumes "self_name self = ''tabs-platforms''"
    and "list_ex (\<lambda>line. line = ''tabs:'') (self_content self)"
    and "load_yaml giza (join (CHR 0x0A) (self_content self)) = Inr (parsed # others)"
    and "check_type giza parsed = Inr loaded"
    and "hidden loaded = Some True"
    and "tabs loaded = [t1, t2]"
    and "tab_id t1 = x" and "tab_id t2 = y"
  shows "TabsDirective_run giza eng self =
     Inr [directive ''tabs'' [(''hidden'', OptBool True), (''tabset'', OptStr ''platforms'')]
       [directive ''tab'' []
          (directive_argument x (fst (inline_text eng x (self_lineno self + tab_line t1)))
             (fst (get_source_and_line eng (self_lineno self)))
             (Some (self_lineno self + tab_line t1))
           # nested_parse eng (prepare_viewlist (tab_content t1) 1) (line_offset eng))
          (fst (get_source_and_line eng (self_lineno self)))
          (Some (self_lineno self + tab_line t1)),
        directive ''tab'' []
          (directive_argument y (fst (inline_text eng y (self_lineno self + tab_line t2)))
             (fst (get_source_and_line eng (self_lineno self)))
             (Some (self_lineno self + tab_line t2))
           # nested_parse eng (prepare_viewlist (tab_content t2) 1) (line_offset eng))
          (fst (get_source_and_line eng (self_lineno self)))
          (Some (self_lineno self + tab_line t2))]
       (fst (get_source_and_line eng (self_lineno self)))
       (snd (get_source_and_line eng (self_lineno self)))]"
  using assms
  by (simp add: TabsDirective_run_def legacy_tabs_def tabset_platforms make_tab_node_def
      split_beta Let_def)

theorem tabs_platforms_migration_witness:
  "TabsDirective_run
     \<lparr>load_yaml = (\<lambda>t. Inr [t]),
      check_type = (\<lambda>y. Inr \<lparr>tabs_line = 0, hidden = Some True,
        tabs = [\<lparr>tab_line = 2, tab_id = ''x'', tab_title = None, tab_content = ''X body''\<rparr>,
                \<lparr>tab_line = 4, tab_id = ''y'', tab_title = Some ''Y'', tab_content = ''X body''\<rparr>]\<rparr>)\<rparr>
     \<lparr>get_source_and_line = (\<lambda>n. (Some ''index.txt'', Some n)),
      inline_text = (\<lambda>t n. ([Text t], [])),
      nested_parse = (\<lambda>ls off. map Text ls),
      line_offset = 0\<rparr>
     \<lparr>self_name = ''tabs-platforms'', self_arguments = [],
      self_content = [''hidden: true'', ''tabs:'', ''  - id: x''],
      self_block_text = ''.. tabs-platforms::'', self_lineno = 10\<rparr>
   = Inr [directive ''tabs'' [(''hidden'', OptBool True), (''tabset'', OptStr ''platforms'')]
       [directive ''tab'' []
          [directive_argument ''x'' [Text ''x''] (Some ''index.txt'') (Some 12),
           Text ''X body'', Text []]
          (Some ''index.txt'') (Some 12),
        directive ''tab'' []
          [directive_argument ''y'' [Text ''y''] (Some ''index.txt'') (Some 14),
           Text ''X body'', Text []]
          (Some ''index.txt'') (Some 14)]
       (Some ''index.txt'') (Some 10)]"
  using tabs_platforms_migration[of
      "\<lparr>self_name = ''tabs-platforms'', self_arguments = [],
        self_content = [''hidden: true'', ''tabs:'', ''  - id: x''],
        self_block_text = ''.. tabs-platforms::'', self_lineno = 10\<rparr>"
      "\<lparr>load_yaml = (\<lambda>t. Inr [t]),
        check_type = (\<lambda>y. Inr \<lparr>tabs_line = 0, hidden = Some True,
          tabs = [\<lparr>tab_line = 2, tab_id = ''x'', tab_title = None, tab_content = ''X body''\<rparr>,
                  \<lparr>tab_line = 4, tab_id = ''y'', tab_title = Some ''Y'', tab_content = ''X body''\<rparr>]\<rparr>)\<rparr>"
      "''hidden: true\<newline>tabs:\<newline>  - id: x''" "[]"
      "\<lparr>tabs_line = 0, hidden = Some True,
          tabs = [\<lparr>tab_line = 2, tab_id = ''x'', tab_title = None, tab_content = ''X body''\<rparr>,
                  \<lparr>tab_line = 4, tab_id = ''y'', tab_title = Some ''Y'', tab_content = ''X body''\<rparr>]\<rparr>"
      "\<lparr>tab_line = 2, tab_id = ''x'', tab_title = None, tab_content = ''X body''\<rparr>"
      "\<lparr>tab_line = 4, tab_id = ''y'', tab_title = Some ''Y'', tab_content = ''X body''\<rparr>"
      "''x''" "''y''"
      "\<lparr>get_source_and_line = (\<lambda>n. (Some ''index.txt'', Some n)),
        inline_text = (\<lambda>t n. ([Text t], [])),
        nested_parse = (\<lambda>ls off. map Text ls),
        line_offset = 0\<rparr>"]
  by (simp add: pv_x[unfolded One_nat_def])

text \<open>
  C6: name resolution rejects no name. A directive name that starts with \<open>tabs\<close> (the
  tab set family) resolves to \<open>TabsDirective\<close>, every other directive name to
  \<open>Directive\<close>, both with no message; \<open>TabsDirective.run\<close> takes the migration branch
  exactly when some content line equals \<open>tabs:\<close> and is \<open>Directive.run\<close> otherwise; every
  role name resolves to \<open>handle_role\<close>.
\<close>

theorem name_resolution:
  "lookup_directive directive_name =
     (if starts_with ''tabs'' directive_name then TabsDirective else Directive, []) \<and>
   (starts_with ''tabs'' directive_name \<longrightarrow>
      run (fst (lookup_directive directive_name)) giza eng self =
        (if ''tabs:'' \<in> set (self_content self) then legacy_tabs giza eng self
         else Directive_run eng self)) \<and>
   (\<not> starts_with ''tabs'' directive_name \<longrightarrow>
      run (fst (lookup_directive directive_name)) giza eng self = Directive_run eng self) \<and>
   lookup_role role_name = (Some handle_role, [])"
  by (auto simp: lookup_directive_def lookup_role_def TabsDirective_run_def list_ex_iff)

theorem name_resolution_witness:
  "starts_with ''tabs'' ''tabs-drivers'' \<and>
   lookup_directive ''tabs-drivers'' = (TabsDirective, []) \<and>
   run (fst (lookup_directive ''tabs-drivers''))
     \<lparr>load_yaml = (\<lambda>t. Inr [t]),
      check_type = (\<lambda>y. Inl \<lparr>message = ''bad'', bad_data_line = None\<rparr>)\<rparr>
     \<lparr>get_source_and_line = (\<lambda>n. (Some ''index.txt'', Some n)),
      inline_text = (\<lambda>t n. ([Text t], [])),
      nested_parse = (\<lambda>ls off. map Text ls),
      line_offset = 0\<rparr>
     \<lparr>self_name = ''tabs-drivers'', self_arguments = [],
      self_content = [''tabs:''], self_block_text = ''.. tabs-drivers::'', self_lineno = 1\<rparr>
   = legacy_tabs
     \<lparr>load_yaml = (\<lambda>t. Inr [t]),
      check_type = (\<lambda>y. Inl \<lparr>message = ''bad'', bad_data_line = None\<rparr>)\<rparr>
     \<lparr>get_source_and_line = (\<lambda>n. (Some ''index.txt'', Some n)),
      inline_text = (\<lambda>t n. ([Text t], [])),
      nested_parse = (\<lambda>ls off. map Text ls),
      line_offset = 0\<rparr>
     \<lparr>self_name = ''tabs-drivers'', self_arguments = [],
      self_content = [''tabs:''], self_block_text = ''.. tabs-drivers::'', self_lineno = 1\<rparr> \<and>
   \<not> starts_with ''tabs'' ''note'' \<and>
   lookup_directive ''note'' = (Directive, []) \<and>
   run (fst (lookup_directive ''note''))
     \<lparr>load_yaml = (\<lambda>t. Inr [t]),
      check_type = (\<lambda>y. Inl \<lparr>message = ''bad'', bad_data_line = None\<rparr>)\<rparr>
     \<lparr>get_source_and_line = (\<lambda>n. (Some ''index.txt'', Some n)),
      inline_text = (\<lambda>t n. ([Text t], [])),
      nested_parse = (\<lambda>ls off. map Text ls),
      line_offset = 0\<rparr>
     \<lparr>self_name = ''note'', self_arguments = [],
      self_content = [''tabs:''], self_block_text = ''.. note::'', self_lineno = 1\<rparr>
   = Directive_run
     \<lparr>get_source_and_line = (\<lambda>n. (Some ''index.txt'', Some n)),
      inline_text = (\<lambda>t n. ([Text t], [])),
      nested_parse = (\<lambda>ls off. map Text ls),
      line_offset = 0\<rparr>
     \<lparr>self_name = ''note'', self_arguments = [],
      self_content = [''tabs:''], self_block_text = ''.. note::'', self_lineno = 1\<rparr> \<and>
   lookup_role ''ref'' = (Some handle_role, [])"
proof -
  have a: "starts_with ''tabs'' ''tabs-drivers''" and b: "\<not> starts_with ''tabs'' ''note''"
    by (simp_all add: starts_with_def)
  note t1 = name_resolution[of "''tabs-drivers''"
      "\<lparr>load_yaml = (\<lambda>t. Inr [t]),
        check_type = (\<lambda>y. Inl \<lparr>message = ''bad'', bad_data_line = None\<rparr>)\<rparr>"
      "\<lparr>get_source_and_line = (\<lambda>n. (Some ''index.txt'', Some n)),
        inline_text = (\<lambda>t n. ([Text t], [])),
        nested_parse = (\<lambda>ls off. map Text ls),
        line_offset = 0\<rparr>"
      "\<lparr>self_name = ''tabs-drivers'', self_arguments = [],
        self_content = [''tabs:''], self_block_text = ''.. tabs-drivers::'', self_lineno = 1\<rparr>"
      "''ref''"]
  note t2 = name_resolution[of "''note''"
      "\<lparr>load_yaml = (\<lambda>t. Inr [t]),
        check_type = (\<lambda>y. Inl \<lparr>message = ''bad'', bad_data_line = None\<rparr>)\<rparr>"
      "\<lparr>get_source_and_line = (\<lambda>n. (Some ''index.txt'', Some n)),
        inline_text = (\<lambda>t n. ([Text t], [])),
        nested_parse = (\<lambda>ls off. map Text ls),
        line_offset = 0\<rparr>"
      "\<lparr>self_name = ''note'', self_arguments = [],
        self_content = [''tabs:''], self_block_text = ''.. note::'', self_lineno = 1\<rparr>"
      "''ref''"]
  show ?thesis using t1 t2 a b by (simp add: TabsDirective_run_def)
qed

section \<open>Properties of the re-basing of legacy tab content\<close>

lemma Min_insert_min:
  assumes "finite S"
  shows "Min (insert (min m i) S) = Min (insert m (insert i S))"
proof (cases "S = {}")
  case True
  then show ?thesis by (simp add: min.commute)
next
  case False
  then show ?thesis using assms by (simp add: min.assoc)
qed

lemma find_margin_Min:
  "find_margin m ls = Min (insert m (set (map indent_of (filter (\<lambda>l. lstrip l \<noteq> []) ls))))"
proof (induction ls arbitrary: m)
  case Nil
  then show ?case by simp
next
  case (Cons l ls)
  show ?case
  proof (cases "lstrip l = []")
    case True
    then show ?thesis using Cons.IH[of m] by simp
  next
    case False
    have "find_margin m (l # ls) = find_margin (min m (indent_of l)) ls"
      using False by (simp add: indent_of_def Let_def)
    also have "\<dots> = Min (insert (min m (indent_of l))
        (set (map indent_of (filter (\<lambda>l. lstrip l \<noteq> []) ls))))"
      by (rule Cons.IH)
    also have "\<dots> = Min (insert m (insert (indent_of l)
        (set (map indent_of (filter (\<lambda>l. lstrip l \<noteq> []) ls)))))"
      by (rule Min_insert_min) simp
    finally show ?thesis using False by simp
  qed
qed

lemma find_margin_common: "find_margin maxsize ls = common_margin ls"
  by (simp add: find_margin_Min common_margin_def)

lemma common_margin_le:
  "l \<in> set ls \<Longrightarrow> lstrip l \<noteq> [] \<Longrightarrow> common_margin ls \<le> indent_of l"
  unfolding common_margin_def by (rule Min_le) auto

lemma finish_shape:
  assumes "r = (if k \<noteq> [] \<and> last k \<noteq> [] then k @ [[]] else k)"
    and "k = dropWhile (\<lambda>l. l = []) xs"
    and "r \<noteq> []"
  shows "last r = [] \<and> hd r \<noteq> []"
proof -
  have k: "k \<noteq> []" using assms by (auto split: if_splits)
  then have "hd k \<noteq> []" using assms(2) hd_dropWhile[of "\<lambda>l. l = []" xs] by auto
  then show ?thesis using assms(1) k by (auto split: if_splits)
qed

text \<open>
  C7, as stated, fails in its last part: an empty line is appended only when lines remain
  and the last one is not empty. So the result of an empty text has no line at all, a
  text that ends in several empty lines keeps them all, and a whitespace-only line longer
  than the margin survives at the head of the result.
\<close>

theorem prepare_viewlist_no_trailing_blank:
  "prepare_viewlist [] 1 = [] \<and>
   prepare_viewlist ''x\<newline>\<newline>\<newline>'' 1 = [''x'', [], []] \<and>
   prepare_viewlist ''\<newline>     \<newline>  x'' 1 = [''   '', ''x'', []]"
  by (simp add: prepare_viewlist_def splitlines_def expandtabs_def is_linebreak_def lstrip_def
      is_space_def maxsize_def)

text \<open>
  C7, amended: on the lines of the tab-expanded text, the normalization left-strips the
  first line, removes from every later line the common margin (the least indentation of the
  non-blank lines after the first, when there is one), drops the leading empty lines, and
  appends one empty line when lines remain and the last is not empty. Hence a result that
  is not empty starts with a non-empty line and ends with an empty line.
\<close>

theorem prepare_viewlist_rebase:
  "prepare_viewlist text 1 =
     (let stripped =
            (case splitlines (expandtabs text) of
               [] \<Rightarrow> []
             | first # rest \<Rightarrow>
                 lstrip first #
                   (if common_margin rest < maxsize then map (drop (common_margin rest)) rest
                    else rest));
          kept = dropWhile (\<lambda>l. l = []) stripped
      in if kept \<noteq> [] \<and> last kept \<noteq> [] then kept @ [[]] else kept) \<and>
   (prepare_viewlist text 1 \<noteq> [] \<longrightarrow>
      last (prepare_viewlist text 1) = [] \<and> hd (prepare_viewlist text 1) \<noteq> [])"
proof -
  let ?stripped = "(case splitlines (expandtabs text) of
               [] \<Rightarrow> []
             | first # rest \<Rightarrow>
                 lstrip first #
                   (if common_margin rest < maxsize then map (drop (common_margin rest)) rest
                    else rest))"
  let ?kept = "dropWhile (\<lambda>l. l = []) ?stripped"
  have eq: "prepare_viewlist text 1 =
      (if ?kept \<noteq> [] \<and> last ?kept \<noteq> [] then ?kept @ [[]] else ?kept)"
  proof (cases "splitlines (expandtabs text)")
    case Nil
    then show ?thesis by (simp add: prepare_viewlist_def find_margin_common Let_def)
  next
    case (Cons first rest)
    then show ?thesis
      by (simp add: prepare_viewlist_def find_margin_common Let_def)
  qed
  have shape: "prepare_viewlist text 1 \<noteq> [] \<longrightarrow>
      last (prepare_viewlist text 1) = [] \<and> hd (prepare_viewlist text 1) \<noteq> []"
    using finish_shape[OF eq refl] by blast
  show ?thesis using eq shape by (simp add: Let_def)
qed


theorem prepare_viewlist_rebase_witness:
  "prepare_viewlist ''first\<newline>    a\<newline>      b\<newline>\<newline>    c'' 1
     = [''first'', ''a'', ''  b'', [], ''c'', []] \<and>
   common_margin [''    a'', ''      b'', [], ''    c''] = 4 \<and>
   prepare_viewlist ''first\<newline>    a\<newline>      b\<newline>\<newline>    c'' 1 \<noteq> [] \<and>
   last (prepare_viewlist ''first\<newline>    a\<newline>      b\<newline>\<newline>    c'' 1) = [] \<and>
   hd (prepare_viewlist ''first\<newline>    a\<newline>      b\<newline>\<newline>    c'' 1) \<noteq> []"
proof -
  let ?T = "''first\<newline>    a\<newline>      b\<newline>\<newline>    c''"
  have l: "splitlines (expandtabs ?T) = [''first'', ''    a'', ''      b'', [], ''    c'']"
    by (simp add: splitlines_def expandtabs_def is_linebreak_def)
  have m: "common_margin [''    a'', ''      b'', [], ''    c''] = 4"
    by (simp add: common_margin_def indent_of_def lstrip_def is_space_def maxsize_def)
  have e: "prepare_viewlist ?T 1 = [''first'', ''a'', ''  b'', [], ''c'', []]"
    using prepare_viewlist_rebase[of ?T]
    by (simp add: l m maxsize_def lstrip_def is_space_def)
  have s: "prepare_viewlist ?T 1 \<noteq> [] \<longrightarrow>
      last (prepare_viewlist ?T 1) = [] \<and> hd (prepare_viewlist ?T 1) \<noteq> []"
    using prepare_viewlist_rebase[of ?T] by blast
  have n: "prepare_viewlist ?T 1 \<noteq> []" using e by simp
  show ?thesis using e m n s by blast
qed

section \<open>Properties of the role pattern\<close>

lemma closing_less: "closing s = Some j \<Longrightarrow> j < length s"
  by (auto simp: closing_def split: if_splits)

lemma closing_iff:
  assumes "j < length s"
  shows "(s ! j = CHR ''>'' \<and> at_dollar s (Suc j)) \<longleftrightarrow> closing s = Some j"
proof -
  have ne: "s \<noteq> []" using assms by auto
  have l: "last s = s ! (length s - 1)" using ne by (rule last_conv_nth)
  consider (a) "Suc j = length s" | (b) "Suc (Suc j) = length s"
    | (c) "Suc j \<noteq> length s" "Suc (Suc j) \<noteq> length s" by blast
  then show ?thesis
  proof cases
    case a
    then have n: "length s - 1 = j" by simp
    show ?thesis
      unfolding closing_def at_dollar_def l n using a ne by auto
  next
    case b
    then have n: "length s - 1 = Suc j" "length s - 2 = j" "2 \<le> length s" "Suc j \<noteq> length s"
      by simp_all
    show ?thesis
      unfolding closing_def at_dollar_def l n using b ne n(3,4) by auto
  next
    case c
    have "length s - 1 \<noteq> j" "length s - 2 \<noteq> j" using c assms by arith+
    then have "closing s \<noteq> Some j" by (auto simp: closing_def)
    then show ?thesis using c by (auto simp: at_dollar_def)
  qed
qed

lemma find_snoc:
  "List.find P (xs @ [x]) =
     (case List.find P xs of None \<Rightarrow> if P x then Some x else None | Some y \<Rightarrow> Some y)"
  by (induction xs) auto

lemma find_eq_upt:
  "List.find (\<lambda>j. k = j) [a..<b] = (if a \<le> k \<and> k < b then Some k else None)"
  by (induction b) (auto simp: find_snoc)

lemma match_target_closing:
  "match_target s p =
     (case closing s of None \<Rightarrow> None | Some j \<Rightarrow> if p \<le> j then Some j else None)"
proof -
  have "match_target s p = List.find (\<lambda>j. closing s = Some j) [p..<length s]"
    unfolding match_target_def by (rule find_cong) (auto simp: closing_iff)
  also have "\<dots> = (case closing s of None \<Rightarrow> None | Some j \<Rightarrow> if p \<le> j then Some j else None)"
  proof (cases "closing s")
    case None
    then show ?thesis by (simp add: find_None_iff)
  next
    case (Some j)
    then show ?thesis using find_eq_upt[of j p "length s"] closing_less[OF Some] by simp
  qed
  finally show ?thesis .
qed

lemma match_after_label_split:
  assumes "0 < n"
  shows "match_after_label s n =
     (let q = n + length (takeWhile is_space (drop n s)) in
      if split_at s q then map_option (\<lambda>j. (q, j)) (closing s) else None)"
  using assms
  by (auto simp: match_after_label_def match_target_closing split_at_def Let_def
      split: option.splits)

lemma first_some_append:
  "(\<And>x. x \<in> set xs \<Longrightarrow> f x = None) \<Longrightarrow> first_some f (xs @ ys) = first_some f ys"
  by (induction xs) auto

lemma first_some_None: "(\<And>x. x \<in> set xs \<Longrightarrow> f x = None) \<Longrightarrow> first_some f xs = None"
  by (induction xs) auto

lemma not_space_lt: "\<not> is_space (CHR ''<'')"
  by (simp add: is_space_def)

lemma rstrip_decomp:
  "\<exists>ws. x = rstrip x @ ws \<and> (\<forall>c\<in>set ws. is_space c) \<and>
        (rstrip x = [] \<or> \<not> is_space (last (rstrip x)))"
proof -
  let ?t = "takeWhile is_space (rev x)" and ?d = "dropWhile is_space (rev x)"
  have "x = rev (?t @ ?d)" by simp
  also have "\<dots> = rev ?d @ rev ?t" by (rule rev_append)
  finally have a: "x = rstrip x @ rev ?t" unfolding rstrip_def .
  have b: "\<forall>c\<in>set (rev ?t). is_space c" by (auto dest: set_takeWhileD)
  have c: "rstrip x = [] \<or> \<not> is_space (last (rstrip x))"
  proof (cases "?d = []")
    case True
    then show ?thesis by (simp add: rstrip_def)
  next
    case False
    then have "\<not> is_space (hd ?d)" by (rule hd_dropWhile)
    then show ?thesis using False by (simp add: rstrip_def last_rev)
  qed
  show ?thesis using a b c by blast
qed

lemma takeWhile_spaces_then:
  "(\<forall>c\<in>set ws. is_space c) \<Longrightarrow> \<not> is_space d \<Longrightarrow>
   takeWhile is_space (ws @ d # rest) = ws"
  by (induction ws) auto

lemma takeWhile_short:
  assumes "d \<noteq> []" "\<not> is_space (last d)"
  shows "length (takeWhile is_space (d @ tail)) < length d"
proof -
  have m: "last d \<in> set d" using assms(1) by simp
  have e: "takeWhile is_space (d @ tail) = takeWhile is_space d"
    using m assms(2) by (rule takeWhile_append1)
  have "takeWhile is_space d \<noteq> d"
    using m assms(2) by (auto simp: takeWhile_eq_all_conv)
  moreover have "length (takeWhile is_space d) \<le> length d" by (rule length_takeWhile_le)
  ultimately have "length (takeWhile is_space d) < length d"
    using takeWhile_eq_take[of is_space d] by (metis le_neq_implies_less take_all_iff order_refl)
  then show ?thesis using e by simp
qed

lemma PAT_EXPLICIT_TILE_first_split:
  assumes sp: "split_at s p" and least: "\<forall>q<p. \<not> split_at s q" and cl: "closing s = Some j"
  shows "PAT_EXPLICIT_TILE_match s =
     Some (hd s # rstrip (tl (take p s)), take (j - Suc p) (drop (Suc p) s))"
proof -
  have p: "0 < p" "p < length s" "s ! p = CHR ''<''" using sp by (simp_all add: split_at_def)
  define rest where "rest = drop (Suc p) s"
  obtain c0 x where tk: "take p s = c0 # x"
    using p by (cases "take p s") auto
  have c0: "hd s = c0" using tk p by (cases s) (auto simp: take_Cons split: nat.splits)
  have x: "tl (take p s) = x" using tk by simp
  define r where "r = rstrip x"
  obtain ws where ws: "x = r @ ws" "\<forall>c\<in>set ws. is_space c"
      "r = [] \<or> \<not> is_space (last r)"
    using rstrip_decomp[of x] unfolding r_def by blast
  have s: "s = (c0 # r) @ ws @ CHR ''<'' # rest"
  proof -
    have "s = take p s @ s ! p # drop (Suc p) s" using p(2) by (rule id_take_nth_drop)
    then show ?thesis unfolding tk ws(1) p(3) rest_def[symmetric] by simp
  qed
  have "length (take p s) = p" using p by simp
  then have lr: "length r + length ws = p - 1" unfolding tk ws(1) by simp
  let ?L0 = "Suc (length r)"
  let ?f = "\<lambda>n. map_option (\<lambda>(q, j). (take n s, take (j - Suc q) (drop (Suc q) s)))
              (match_after_label s n)"
  have L0p: "?L0 \<le> p" using lr p(1) by arith
  have dL0: "drop ?L0 s = ws @ CHR ''<'' # rest"
    by (subst s) simp
  have qL0: "?L0 + length (takeWhile is_space (drop ?L0 s)) = p"
    unfolding dL0 takeWhile_spaces_then[OF ws(2) not_space_lt] using lr p(1) by arith
  have fL0: "?f ?L0 = Some (c0 # r, take (j - Suc p) rest)"
  proof -
    have "match_after_label s ?L0 = Some (p, j)"
      using match_after_label_split[of ?L0 s] qL0 sp cl by (simp add: Let_def)
    moreover have "take ?L0 s = c0 # r"
      by (subst s) simp
    ultimately show ?thesis by (simp add: rest_def)
  qed
  have before: "?f n = None" if n: "n \<in> set [1..<?L0]" for n
  proof -
    have n1: "1 \<le> n" "n \<le> length r" using n by auto
    then have rne: "r \<noteq> []" by auto
    let ?d = "drop (n - 1) r"
    have dne: "?d \<noteq> []" using n1 by simp
    have ld: "\<not> is_space (last ?d)" using ws(3) rne dne by simp
    have dn: "drop n s = ?d @ ws @ CHR ''<'' # rest"
      using n1 by (subst s) (simp add: drop_Cons split: nat.splits)
    have "length (takeWhile is_space (drop n s)) < length ?d"
      unfolding dn by (rule takeWhile_short[OF dne ld])
    then have "n + length (takeWhile is_space (drop n s)) < p"
      using n1 L0p by simp
    then have "\<not> split_at s (n + length (takeWhile is_space (drop n s)))"
      using least by blast
    then have "match_after_label s n = None"
      using match_after_label_split[of n s] n1 by (simp add: Let_def)
    then show ?thesis by simp
  qed
  have upt: "[1..<Suc (length s)] = [1..<?L0] @ ?L0 # [Suc ?L0..<Suc (length s)]"
  proof -
    have "[1..<Suc (length s)] = [1..<?L0] @ [?L0..<Suc (length s)]"
      using L0p p(2) upt_add_eq_append[of 1 ?L0 "Suc (length s) - ?L0"] by simp
    moreover have "[?L0..<Suc (length s)] = ?L0 # [Suc ?L0..<Suc (length s)]"
      using L0p p(2) by (intro upt_conv_Cons) simp
    ultimately show ?thesis by simp
  qed
  have "PAT_EXPLICIT_TILE_match s = first_some ?f ([1..<?L0] @ ?L0 # [Suc ?L0..<Suc (length s)])"
    unfolding PAT_EXPLICIT_TILE_match_def using upt by simp
  also have "\<dots> = first_some ?f (?L0 # [Suc ?L0..<Suc (length s)])"
    by (rule first_some_append) (rule before)
  also have "\<dots> = Some (c0 # r, take (j - Suc p) rest)"
    by (simp only: first_some.simps fL0 option.case)
  finally show ?thesis by (simp add: r_def c0 x rest_def)
qed

lemma PAT_EXPLICIT_TILE_no_split:
  assumes "\<forall>p. \<not> split_at s p"
  shows "PAT_EXPLICIT_TILE_match s = None"
proof -
  have "match_after_label s n = None" if "n \<in> set [1..<Suc (length s)]" for n
  proof -
    have "0 < n" using that by auto
    then show ?thesis using match_after_label_split[of n s] assms by (simp add: Let_def)
  qed
  then show ?thesis
    unfolding PAT_EXPLICIT_TILE_match_def by (intro first_some_None) simp
qed

text \<open>
  C2, as stated, fails: the label group is lazy, so the pattern splits at the first
  admissible \<open><\<close>, not the last, and the target group may be empty. The text \<open>A<B<C>\<close>
  gives the label \<open>A\<close> and the target \<open>B<C\<close>; the text \<open>A<>\<close> splits with an empty target.
\<close>

theorem explicit_title_splits_first:
  "role_init ''ref'' '':ref:`A<B<C>`'' ''A<B<C>'' 7
     = role ''ref'' ''A<B<C>'' (LabelDict ''A'' 7) ''B<C'' \<and>
   role_init ''ref'' '':ref:`A<>`'' ''A<>'' 7 = role ''ref'' ''A<>'' (LabelDict ''A'' 7) []"
  by code_simp


text \<open>
  C2, amended: the role builder splits at the first \<open><\<close> that is not the first character,
  does not follow the escape marker U+0000 and comes before a \<open>>\<close> that ends the text (a
  final newline may follow that \<open>>\<close>). The label is the text before the split without
  its trailing whitespace, the first character always kept; the target is the text
  between that \<open><\<close> and the final \<open>>\<close>, and may be empty. When the text has no such \<open><\<close>,
  label and target are both the full text.
\<close>

theorem role_split:
  "(split_at text p \<and> (\<forall>q<p. \<not> split_at text q) \<and> closing text = Some j \<longrightarrow>
      role_init name rawtext text lineno =
        role name text (LabelDict (hd text # rstrip (tl (take p text))) lineno)
          (take (j - Suc p) (drop (Suc p) text))) \<and>
   ((\<forall>p. \<not> split_at text p) \<longrightarrow>
      role_init name rawtext text lineno = role name text (LabelText text) text)"
  by (auto simp: role_init_def PAT_EXPLICIT_TILE_first_split PAT_EXPLICIT_TILE_no_split)

theorem role_split_witness:
  "split_at ''Some Label <some-target>'' 11 \<and>
   closing ''Some Label <some-target>'' = Some 23 \<and>
   role_init ''ref'' [] ''Some Label <some-target>'' 5
     = role ''ref'' ''Some Label <some-target>'' (LabelDict ''Some Label'' 5) ''some-target'' \<and>
   role_init ''ref'' [] [CHR ''a'', CHR 0x00, CHR ''<'', CHR ''x'', CHR ''>''] 5
     = role ''ref'' [CHR ''a'', CHR 0x00, CHR ''<'', CHR ''x'', CHR ''>'']
         (LabelText [CHR ''a'', CHR 0x00, CHR ''<'', CHR ''x'', CHR ''>''])
         [CHR ''a'', CHR 0x00, CHR ''<'', CHR ''x'', CHR ''>'']"
proof -
  let ?T = "''Some Label <some-target>''"
  let ?E = "[CHR ''a'', CHR 0x00, CHR ''<'', CHR ''x'', CHR ''>'']"
  have c: "closing ?T = Some 23" by (simp add: closing_def)
  have a: "split_at ?T 11" by (simp add: split_at_def c)
  have "\<forall>q\<in>set [0..<11]. ?T ! q \<noteq> CHR ''<''" by code_simp
  then have b: "\<forall>q<11. \<not> split_at ?T q" by (simp add: split_at_def)
  have l: "hd ?T # rstrip (tl (take 11 ?T)) = ''Some Label''"
    by (simp add: rstrip_def is_space_def)
  have t: "take (23 - Suc 11) (drop (Suc 11) ?T) = ''some-target''" by simp
  have r1: "role_init ''ref'' [] ?T 5 = role ''ref'' ?T (LabelDict ''Some Label'' 5) ''some-target''"
    using role_split[of ?T 11 23 "''ref''" "[]" 5] a b c unfolding l t by blast
  have ce: "closing ?E = Some 4" by (simp add: closing_def)
  have "\<forall>p\<in>set [0..<5]. \<not> (?E ! p = CHR ''<'' \<and> ?E ! (p - 1) \<noteq> CHR 0x00)" by code_simp
  then have n: "\<forall>p. \<not> split_at ?E p" by (auto simp: split_at_def)
  have r2: "role_init ''ref'' [] ?E 5 = role ''ref'' ?E (LabelText ?E) ?E"
    using role_split[of ?E 0 0 "''ref''" "[]" 5] n by blast
  show ?thesis using a c r1 r2 by blast
qed

end
